theory Spec2Isabelle
  imports Complex_Main "HOL-Library.AList" "HOL-Library.Sublist"
begin

section \<open>Data model\<close>

text \<open>
  The data model of \<^verbatim>\<open>types/rag\<close>. A JavaScript \<^verbatim>\<open>number\<close> holding a score or a
  vector component is idealised as a real; indices and lengths are naturals, and an
  index that can be \<^verbatim>\<open>-1\<close> (the result of \<^verbatim>\<open>lastIndexOf\<close>) is an integer.
  A thrown \<^verbatim>\<open>Error\<close> is a value carrying its message. The open \<^verbatim>\<open>metadata\<close> map of a
  document is left out: no operation modelled here reads it.
\<close>

datatype error = Error string

fun message :: "error \<Rightarrow> string" where
  "message (Error m) = m"

datatype OnboardingSectionType = PROFILE | PERSONAL_INFO | PAYMENT | TOURS | CALENDAR | QUIZ

type_synonym embedding = "real list"

record document =
  doc_id :: string
  doc_title :: string
  doc_content :: string
  doc_section :: OnboardingSectionType

record document_chunk =
  chunk_id :: string
  chunk_content :: string
  chunk_embedding :: embedding
  chunk_documentId :: string
  chunk_startIndex :: nat
  chunk_endIndex :: nat

record processed_document = document +
  embedding :: embedding
  chunks :: "document_chunk list"

record document_source =
  source_id :: string
  source_title :: string
  excerpt :: string
  source_section :: OnboardingSectionType
  relevanceScore :: real

record similarity_result =
  sr_document :: processed_document
  sr_chunk :: "document_chunk option"
  similarity :: real

record rag_response =
  answer :: string
  sources :: "document_source list"
  confidence :: real

section \<open>Vector store\<close>

text \<open>
  \<^verbatim>\<open>InMemoryVectorStore.documents\<close> is a JavaScript \<^verbatim>\<open>Map\<close>: iteration follows insertion
  order and \<^verbatim>\<open>set\<close> on a present key keeps the key's position. An association list
  with \<^const>\<open>AList.update\<close> behaves the same way.
\<close>

type_synonym vector_store = "(string \<times> processed_document) list"

definition store_addDocument :: "processed_document \<Rightarrow> vector_store \<Rightarrow> vector_store" where
  "store_addDocument d st = AList.update (doc_id d) d st"

definition store_removeDocument :: "string \<Rightarrow> vector_store \<Rightarrow> vector_store" where
  "store_removeDocument k st = AList.delete k st"

definition store_clear :: "vector_store \<Rightarrow> vector_store" where
  "store_clear st = []"

definition getAllDocuments :: "vector_store \<Rightarrow> processed_document list" where
  "getAllDocuments st = map snd st"

text \<open>
  The accumulation loop of \<^verbatim>\<open>cosineSimilarity\<close>: one step per index, over the two
  vectors in lockstep (they have equal length when the loop runs). The accumulator is
  \<^verbatim>\<open>(dotProduct, magnitudeA, magnitudeB)\<close>.
\<close>

fun cosineLoop :: "real list \<Rightarrow> real list \<Rightarrow> real \<times> real \<times> real \<Rightarrow> real \<times> real \<times> real" where
  "cosineLoop (aVal # as) (bVal # bs) (dotProduct, magnitudeA, magnitudeB) =
     cosineLoop as bs (dotProduct + aVal * bVal, magnitudeA + aVal * aVal, magnitudeB + bVal * bVal)"
| "cosineLoop _ _ acc = acc"

definition cosineSimilarity :: "embedding \<Rightarrow> embedding \<Rightarrow> error + real" where
  "cosineSimilarity vectorA vectorB =
     (if length vectorA \<noteq> length vectorB
      then Inl (Error ''Vectors must have the same length for cosine similarity calculation'')
      else
        (case cosineLoop vectorA vectorB (0, 0, 0) of (dotProduct, sumA, sumB) \<Rightarrow>
           let magnitudeA = sqrt sumA; magnitudeB = sqrt sumB
           in if magnitudeA = 0 \<or> magnitudeB = 0 then Inr 0
              else Inr (dotProduct / (magnitudeA * magnitudeB))))"


section \<open>Strings and regular-expression replacement\<close>

text \<open>
  A JavaScript string is modelled as a list of 8-bit characters (code units below 256).
  \<^verbatim>\<open>\s\<close> and \<^verbatim>\<open>trim\<close> use the same set of characters: tab, line feed, vertical tab,
  form feed, carriage return, space and no-break space. A line terminator (for
  \<^verbatim>\<open>.\<close>, and for \<^verbatim>\<open>^\<close> and \<^verbatim>\<open>$\<close> under the \<^verbatim>\<open>m\<close> flag) is a line feed or a carriage
  return.
\<close>

definition isWhiteSpace :: "char \<Rightarrow> bool" where
  "isWhiteSpace c \<longleftrightarrow> c \<in> {CHR 0x09, CHR 0x0A, CHR 0x0B, CHR 0x0C, CHR 0x0D, CHR 0x20, CHR 0xA0}"

definition isLineTerminator :: "char \<Rightarrow> bool" where
  "isLineTerminator c \<longleftrightarrow> c = CHR 0x0A \<or> c = CHR 0x0D"

definition isDigit :: "char \<Rightarrow> bool" where
  "isDigit c \<longleftrightarrow> c \<in> set ''0123456789''"

definition trim :: "string \<Rightarrow> string" where
  "trim s = rev (dropWhile isWhiteSpace (rev (dropWhile isWhiteSpace s)))"

definition slice :: "string \<Rightarrow> nat \<Rightarrow> nat \<Rightarrow> string" where
  \<comment> \<open>\<^verbatim>\<open>s.slice(i, j)\<close> and \<^verbatim>\<open>s.substring(i, j)\<close> for \<open>0 \<le> i\<close>, \<open>0 \<le> j\<close>\<close>
  "slice s i j = take (j - i) (drop i s)"

primrec lastIndexOf_from :: "char \<Rightarrow> string \<Rightarrow> int \<Rightarrow> int \<Rightarrow> int" where
  "lastIndexOf_from c [] i found = found"
| "lastIndexOf_from c (x # xs) i found = lastIndexOf_from c xs (i + 1) (if x = c then i else found)"

definition lastIndexOf :: "string \<Rightarrow> char \<Rightarrow> int" where
  \<comment> \<open>the index of the last occurrence, \<open>-1\<close> when there is none\<close>
  "lastIndexOf s c = lastIndexOf_from c s 0 (- 1)"

text \<open>
  \<^verbatim>\<open>s.replace(re, replacement)\<close> with the \<^verbatim>\<open>g\<close> flag. The regular expression is given
  as a matcher: at the current position, knowing whether the position is the start of a
  line, it returns the replacement text and the number of characters matched, or
  \<open>None\<close>. The scan tries the matcher at each position from left to right; after a
  match it resumes behind the match, and text inserted by a replacement is never
  scanned again. (An empty match inserts the replacement and moves one character on.)
\<close>

fun gsub :: "(bool \<Rightarrow> string \<Rightarrow> (string \<times> nat) option) \<Rightarrow> bool \<Rightarrow> string \<Rightarrow> string" where
  "gsub m bol [] = []"
| "gsub m bol (c # cs) =
     (case m bol (c # cs) of
        None \<Rightarrow> c # gsub m (isLineTerminator c) cs
      | Some (r, n) \<Rightarrow>
          if n = 0 then r @ c # gsub m (isLineTerminator c) cs
          else r @ gsub m (isLineTerminator (last (take n (c # cs)))) (drop (n - 1) cs))"

definition replaceAll :: "(bool \<Rightarrow> string \<Rightarrow> (string \<times> nat) option) \<Rightarrow> string \<Rightarrow> string" where
  "replaceAll m s = gsub m True s"

text \<open>
  The lazy groups \<^verbatim>\<open>(.*?)\<close> and \<^verbatim>\<open>[\s\S]*?\<close> followed by a literal closing delimiter
  \<open>d\<close>: the shortest text up to the first place where \<open>d\<close> starts; \<^verbatim>\<open>.\<close> does not
  cross a line terminator.
\<close>

fun lazyDot :: "string \<Rightarrow> string \<Rightarrow> string option" where
  "lazyDot d [] = (if d = [] then Some [] else None)"
| "lazyDot d (c # cs) =
     (if prefix d (c # cs) then Some []
      else if isLineTerminator c then None
      else map_option ((#) c) (lazyDot d cs))"

fun lazyAny :: "string \<Rightarrow> string \<Rightarrow> string option" where
  "lazyAny d [] = (if d = [] then Some [] else None)"
| "lazyAny d (c # cs) =
     (if prefix d (c # cs) then Some []
      else map_option ((#) c) (lazyAny d cs))"

text \<open>The regular expressions of \<^verbatim>\<open>formatResponseForFrontend\<close>, in source order.\<close>

definition re_header :: "bool \<Rightarrow> string \<Rightarrow> (string \<times> nat) option" where
  \<comment> \<open>\<^verbatim>\<open>/^#{1,6}\s+(.*)$/gm\<close>, replacement \<^verbatim>\<open>$1\<close>\<close>
  "re_header bol s =
     (let h = length (takeWhile (\<lambda>c. c = CHR ''#'') s);
          w = length (takeWhile isWhiteSpace (drop h s));
          line = takeWhile (\<lambda>c. \<not> isLineTerminator c) (drop (h + w) s)
      in if bol \<and> 1 \<le> h \<and> h \<le> 6 \<and> 1 \<le> w then Some (line, h + w + length line) else None)"

definition re_delimited :: "string \<Rightarrow> bool \<Rightarrow> string \<Rightarrow> (string \<times> nat) option" where
  \<comment> \<open>\<^verbatim>\<open>/d(.*?)d/g\<close> for a literal delimiter \<open>d\<close>, replacement \<^verbatim>\<open>$1\<close>\<close>
  "re_delimited d bol s =
     (if prefix d s then
        (case lazyDot d (drop (length d) s) of
           Some inner \<Rightarrow> Some (inner, length d + length inner + length d)
         | None \<Rightarrow> None)
      else None)"

definition re_codeBlock :: "bool \<Rightarrow> string \<Rightarrow> (string \<times> nat) option" where
  \<comment> \<open>\<^verbatim>\<open>/```[\s\S]*?```/g\<close>, replacement empty\<close>
  "re_codeBlock bol s =
     (if prefix [CHR 0x60, CHR 0x60, CHR 0x60] s then
        (case lazyAny [CHR 0x60, CHR 0x60, CHR 0x60] (drop 3 s) of
           Some inner \<Rightarrow> Some ([], 3 + length inner + 3)
         | None \<Rightarrow> None)
      else None)"

definition re_inlineCode :: "bool \<Rightarrow> string \<Rightarrow> (string \<times> nat) option" where
  \<comment> \<open>\<^verbatim>\<open>/`([^`]+)`/g\<close>, replacement \<^verbatim>\<open>$1\<close>\<close>
  "re_inlineCode bol s =
     (case s of
        [] \<Rightarrow> None
      | c # rest \<Rightarrow>
          let inner = takeWhile (\<lambda>x. x \<noteq> CHR 0x60) rest
          in if c = CHR 0x60 \<and> inner \<noteq> [] \<and> prefix [CHR 0x60] (drop (length inner) rest)
             then Some (inner, 1 + length inner + 1) else None)"

definition re_link :: "bool \<Rightarrow> string \<Rightarrow> (string \<times> nat) option" where
  \<comment> \<open>\<^verbatim>\<open>/\[([^\]]+)\]\([^)]+\)/g\<close>, replacement \<^verbatim>\<open>$1\<close>\<close>
  "re_link bol s =
     (case s of
        [] \<Rightarrow> None
      | c # rest \<Rightarrow>
          let label = takeWhile (\<lambda>x. x \<noteq> CHR '']'') rest;
              rest2 = drop (length label + 2) rest;
              url = takeWhile (\<lambda>x. x \<noteq> CHR '')'') rest2
          in if c = CHR ''['' \<and> label \<noteq> []
                \<and> prefix [CHR '']'', CHR ''(''] (drop (length label) rest)
                \<and> url \<noteq> [] \<and> prefix [CHR '')''] (drop (length url) rest2)
             then Some (label, 1 + length label + 2 + length url + 1) else None)"

definition re_rule :: "bool \<Rightarrow> string \<Rightarrow> (string \<times> nat) option" where
  \<comment> \<open>\<^verbatim>\<open>/^[-*_]{3,}$/gm\<close>, replacement empty\<close>
  "re_rule bol s =
     (let run = takeWhile (\<lambda>c. c \<in> {CHR ''-'', CHR ''*'', CHR ''_''}) s;
          rest = drop (length run) s
      in if bol \<and> 3 \<le> length run \<and> (rest = [] \<or> isLineTerminator (hd rest))
         then Some ([], length run) else None)"

definition re_newlines :: "bool \<Rightarrow> string \<Rightarrow> (string \<times> nat) option" where
  \<comment> \<open>\<^verbatim>\<open>/\n{3,}/g\<close>, replacement two line feeds\<close>
  "re_newlines bol s =
     (let run = takeWhile (\<lambda>c. c = CHR 0x0A) s
      in if 3 \<le> length run then Some ([CHR 0x0A, CHR 0x0A], length run) else None)"

definition re_numbered :: "bool \<Rightarrow> string \<Rightarrow> (string \<times> nat) option" where
  \<comment> \<open>\<^verbatim>\<open>/(\n)(\d+\.)/g\<close>, replacement two line feeds and \<^verbatim>\<open>$2\<close>\<close>
  "re_numbered bol s =
     (case s of
        [] \<Rightarrow> None
      | c # rest \<Rightarrow>
          let digits = takeWhile isDigit rest
          in if c = CHR 0x0A \<and> digits \<noteq> [] \<and> prefix [CHR ''.''] (drop (length digits) rest)
             then Some ([CHR 0x0A, CHR 0x0A] @ digits @ [CHR ''.''], 1 + length digits + 1)
             else None)"

definition re_bullet :: "bool \<Rightarrow> string \<Rightarrow> (string \<times> nat) option" where
  \<comment> \<open>\<^verbatim>\<open>/(\n)(-\s)/g\<close>, replacement two line feeds and \<^verbatim>\<open>$2\<close>\<close>
  "re_bullet bol s =
     (case s of
        c # d # w # rest \<Rightarrow>
          if c = CHR 0x0A \<and> d = CHR ''-'' \<and> isWhiteSpace w
          then Some ([CHR 0x0A, CHR 0x0A, CHR ''-'', w], 3) else None
      | _ \<Rightarrow> None)"

definition re_blanks :: "bool \<Rightarrow> string \<Rightarrow> (string \<times> nat) option" where
  \<comment> \<open>\<^verbatim>\<open>/[ \t]+/g\<close>, replacement one space\<close>
  "re_blanks bol s =
     (let run = takeWhile (\<lambda>c. c = CHR 0x20 \<or> c = CHR 0x09) s
      in if run \<noteq> [] then Some ([CHR 0x20], length run) else None)"

definition re_spaces :: "bool \<Rightarrow> string \<Rightarrow> (string \<times> nat) option" where
  \<comment> \<open>\<^verbatim>\<open>/  +/g\<close>, replacement one space\<close>
  "re_spaces bol s =
     (let run = takeWhile (\<lambda>c. c = CHR 0x20) s
      in if 2 \<le> length run then Some ([CHR 0x20], length run) else None)"

definition re_lineBreaks :: "bool \<Rightarrow> string \<Rightarrow> (string \<times> nat) option" where
  \<comment> \<open>\<^verbatim>\<open>/\n\s*\n/g\<close>, replacement two line feeds: the greedy \<^verbatim>\<open>\s*\<close> gives back
      characters until it stands before the last line feed of the white-space run\<close>
  "re_lineBreaks bol s =
     (case s of
        [] \<Rightarrow> None
      | c # rest \<Rightarrow>
          let ws = takeWhile isWhiteSpace rest;
              tail = takeWhile (\<lambda>x. x \<noteq> CHR 0x0A) (rev ws)
          in if c = CHR 0x0A \<and> CHR 0x0A \<in> set ws
             then Some ([CHR 0x0A, CHR 0x0A], 1 + (length ws - length tail)) else None)"

definition re_crlf :: "bool \<Rightarrow> string \<Rightarrow> (string \<times> nat) option" where
  \<comment> \<open>\<^verbatim>\<open>/\r\n/g\<close>, replacement one line feed\<close>
  "re_crlf bol s = (if prefix [CHR 0x0D, CHR 0x0A] s then Some ([CHR 0x0A], 2) else None)"

definition endsWithTerminalPunctuation :: "string \<Rightarrow> bool" where
  \<comment> \<open>\<^verbatim>\<open>formatted.match(/[.!?]$/)\<close>\<close>
  "endsWithTerminalPunctuation s \<longleftrightarrow> s \<noteq> [] \<and> last s \<in> {CHR ''.'', CHR ''!'', CHR ''?''}"

definition isMarkdownArtifact :: "char \<Rightarrow> bool" where
  \<comment> \<open>the class \<^verbatim>\<open>[*_#`]\<close>\<close>
  "isMarkdownArtifact c \<longleftrightarrow> c \<in> {CHR ''*'', CHR ''_'', CHR ''#'', CHR 0x60}"

definition stripMarkdown :: "string \<Rightarrow> string" where
  \<comment> \<open>the first chain of \<^verbatim>\<open>formatResponseForFrontend\<close>, up to \<^verbatim>\<open>trim()\<close>\<close>
  "stripMarkdown rawResponse =
     trim
      (replaceAll re_blanks
      (replaceAll re_bullet
      (replaceAll re_numbered
      (replaceAll re_newlines
      (replaceAll re_rule
      (replaceAll re_link
      (replaceAll re_inlineCode
      (replaceAll re_codeBlock
      (replaceAll (re_delimited ''_'')
      (replaceAll (re_delimited ''*'')
      (replaceAll (re_delimited ''__'')
      (replaceAll (re_delimited ''**'')
      (replaceAll re_header rawResponse)))))))))))))"

definition ensureSentenceEnding :: "string \<Rightarrow> string" where
  "ensureSentenceEnding formatted =
     (if formatted \<noteq> [] \<and> \<not> endsWithTerminalPunctuation formatted
      then formatted @ ''.'' else formatted)"

definition finalCleanup :: "string \<Rightarrow> string" where
  "finalCleanup formatted =
     replaceAll re_lineBreaks
      (replaceAll re_spaces
      (filter (\<lambda>c. \<not> isMarkdownArtifact c) formatted))"

definition formatResponseForFrontend :: "string \<Rightarrow> string" where
  "formatResponseForFrontend rawResponse =
     finalCleanup (ensureSentenceEnding (stripMarkdown rawResponse))"


text \<open>\<^verbatim>\<open>DocumentProcessorService.preprocessContent\<close>.\<close>

definition preprocessContent :: "string \<Rightarrow> string" where
  "preprocessContent c =
     trim (replaceAll re_blanks (replaceAll re_newlines (replaceAll re_crlf c)))"

section \<open>Document processor\<close>

text \<open>
  The embedding and text-generation provider is outside the repository's logic: a call
  either returns a value or throws. Both calls, \<^verbatim>\<open>openAIService().generateEmbeddings\<close>
  and \<^verbatim>\<open>openAIService().generateResponse\<close>, are parameters of the model.
\<close>

type_synonym embedder = "string \<Rightarrow> error + embedding"
type_synonym generator = "string \<Rightarrow> error + string"

definition chunkSize :: nat where "chunkSize = 800"
definition chunkOverlap :: nat where "chunkOverlap = 50"

definition digitChar :: "nat \<Rightarrow> char" where
  "digitChar n = ''0123456789'' ! (n mod 10)"

function decimal :: "nat \<Rightarrow> string" where
  "decimal n = (if n < 10 then [digitChar n] else decimal (n div 10) @ [digitChar (n mod 10)])"
  by pat_completeness auto
termination
  by (relation "measure id") auto

declare decimal.simps [simp del]

text \<open>
  The text of the chunk that starts at \<open>startIndex\<close>: the window of \<open>chunkSize\<close>
  characters, cut behind the last full stop or line feed when the window ends before the
  document does and the test on \<open>breakPoint\<close> succeeds. \<open>breakPoint\<close> is an index into
  the window; the source compares it with \<^verbatim>\<open>startIndex + this.chunkSize * 0.5\<close>, written
  here with both sides doubled to stay in the integers.
\<close>

definition chunkContentAt :: "string \<Rightarrow> nat \<Rightarrow> string" where
  "chunkContentAt content startIndex =
     (let endIndex = min (startIndex + chunkSize) (length content);
          chunkContent = slice content startIndex endIndex
      in if endIndex < length content then
           (let lastSentenceEnd = lastIndexOf chunkContent (CHR ''.'');
                lastNewline = lastIndexOf chunkContent (CHR 0x0A);
                breakPoint = max lastSentenceEnd lastNewline
            in if 2 * breakPoint > 2 * int startIndex + int chunkSize
               then slice content startIndex (startIndex + nat (breakPoint + 1))
               else chunkContent)
         else chunkContent)"

text \<open>
  The \<^verbatim>\<open>while\<close> loop of \<^verbatim>\<open>createDocumentChunks\<close>. Each round yields the chunk index, the
  start index and the chunk text whose embedding is requested.
\<close>

function chunkLoop :: "string \<Rightarrow> nat \<Rightarrow> nat \<Rightarrow> (nat \<times> nat \<times> string) list" where
  "chunkLoop content startIndex chunkIndex =
     (if startIndex < length content then
        (let chunkContent = chunkContentAt content startIndex;
             nextStartIndex = int startIndex + int (length chunkContent) - int chunkOverlap
         in (chunkIndex, startIndex, chunkContent)
              # chunkLoop content (nat (max nextStartIndex (int startIndex + 1))) (chunkIndex + 1))
      else [])"
  by pat_completeness auto
termination
  by (relation "measure (\<lambda>(content, startIndex, chunkIndex). length content - startIndex)") auto

declare chunkLoop.simps [simp del]

text \<open>The start index of the round after the one that starts at \<open>s\<close>.\<close>

definition nextStart :: "string \<Rightarrow> nat \<Rightarrow> nat" where
  "nextStart content s =
     nat (max (int s + int (length (chunkContentAt content s)) - int chunkOverlap) (int s + 1))"

text \<open>
  The chunk promises. Every embedding request is issued in loop order; the chunks are
  collected in that order, and the first request that fails makes the whole call fail.
\<close>

fun embedChunks :: "embedder \<Rightarrow> string \<Rightarrow> (nat \<times> nat \<times> string) list \<Rightarrow> error + document_chunk list" where
  "embedChunks generateEmbeddings docId [] = Inr []"
| "embedChunks generateEmbeddings docId ((currentChunkIndex, currentStartIndex, chunkContent) # rest) =
     (case generateEmbeddings chunkContent of
        Inl e \<Rightarrow> Inl e
      | Inr emb \<Rightarrow>
          (case embedChunks generateEmbeddings docId rest of
             Inl e \<Rightarrow> Inl e
           | Inr cs \<Rightarrow>
               Inr (\<lparr> chunk_id = docId @ ''_chunk_'' @ decimal currentChunkIndex,
                      chunk_content = trim chunkContent,
                      chunk_embedding = emb,
                      chunk_documentId = docId,
                      chunk_startIndex = currentStartIndex,
                      chunk_endIndex = currentStartIndex + length chunkContent \<rparr> # cs)))"

definition createDocumentChunks :: "embedder \<Rightarrow> document \<Rightarrow> error + document_chunk list" where
  "createDocumentChunks generateEmbeddings doc =
     (if length (doc_content doc) \<le> chunkSize then
        (case generateEmbeddings (doc_content doc) of
           Inl e \<Rightarrow> Inl e
         | Inr emb \<Rightarrow>
             Inr [\<lparr> chunk_id = doc_id doc @ ''_chunk_0'',
                    chunk_content = doc_content doc,
                    chunk_embedding = emb,
                    chunk_documentId = doc_id doc,
                    chunk_startIndex = 0,
                    chunk_endIndex = length (doc_content doc) \<rparr>])
      else embedChunks generateEmbeddings (doc_id doc) (chunkLoop (doc_content doc) 0 0))"

definition processDocument :: "embedder \<Rightarrow> document \<Rightarrow> error + processed_document" where
  "processDocument generateEmbeddings doc =
     (let wrap = (\<lambda>e. Error (''Failed to process document '' @ doc_id doc @ '': '' @ message e))
      in case generateEmbeddings (doc_title doc @ [CHR 0x0A, CHR 0x0A] @ doc_content doc) of
           Inl e \<Rightarrow> Inl (wrap e)
         | Inr documentEmbedding \<Rightarrow>
             (case createDocumentChunks generateEmbeddings doc of
                Inl e \<Rightarrow> Inl (wrap e)
              | Inr cs \<Rightarrow>
                  Inr \<lparr> doc_id = doc_id doc, doc_title = doc_title doc,
                        doc_content = doc_content doc, doc_section = doc_section doc,
                        embedding = documentEmbedding, chunks = cs \<rparr>))"

text \<open>
  \<^verbatim>\<open>processDocuments\<close>: batches of three; a document whose processing throws is dropped,
  the others are kept in order.
\<close>

definition processBatch :: "embedder \<Rightarrow> document list \<Rightarrow> processed_document list" where
  "processBatch generateEmbeddings batch =
     List.map_filter (\<lambda>d. case processDocument generateEmbeddings d of Inl e \<Rightarrow> None | Inr p \<Rightarrow> Some p) batch"

function processDocuments :: "embedder \<Rightarrow> document list \<Rightarrow> processed_document list" where
  "processDocuments generateEmbeddings documents =
     (if documents = [] then []
      else processBatch generateEmbeddings (take 3 documents) @ processDocuments generateEmbeddings (drop 3 documents))"
  by pat_completeness auto
termination
  by (relation "measure (\<lambda>(generateEmbeddings, documents). length documents)") auto

declare processDocuments.simps [simp del]

section \<open>RAG service\<close>

definition maxSources :: nat where "maxSources = 5"
definition similarityThreshold :: real where "similarityThreshold = 0.3"

text \<open>\<^verbatim>\<open>InMemoryVectorStore.findSimilar\<close>: every document, then each of its chunks.\<close>

fun chunkSimilarities ::
  "embedding \<Rightarrow> processed_document \<Rightarrow> document_chunk list \<Rightarrow> error + similarity_result list" where
  "chunkSimilarities queryEmbedding d [] = Inr []"
| "chunkSimilarities queryEmbedding d (c # cs) =
     (case cosineSimilarity queryEmbedding (chunk_embedding c) of
        Inl e \<Rightarrow> Inl e
      | Inr chunkSimilarity \<Rightarrow>
          (case chunkSimilarities queryEmbedding d cs of
             Inl e \<Rightarrow> Inl e
           | Inr rs \<Rightarrow>
               Inr (\<lparr> sr_document = d, sr_chunk = Some c, similarity = chunkSimilarity \<rparr> # rs)))"

fun allSimilarities :: "embedding \<Rightarrow> processed_document list \<Rightarrow> error + similarity_result list" where
  "allSimilarities queryEmbedding [] = Inr []"
| "allSimilarities queryEmbedding (d # ds) =
     (case cosineSimilarity queryEmbedding (embedding d) of
        Inl e \<Rightarrow> Inl e
      | Inr documentSimilarity \<Rightarrow>
          (case chunkSimilarities queryEmbedding d (chunks d) of
             Inl e \<Rightarrow> Inl e
           | Inr crs \<Rightarrow>
               (case allSimilarities queryEmbedding ds of
                  Inl e \<Rightarrow> Inl e
                | Inr rs \<Rightarrow>
                    Inr (\<lparr> sr_document = d, sr_chunk = None, similarity = documentSimilarity \<rparr>
                           # crs @ rs))))"

definition findSimilar :: "vector_store \<Rightarrow> embedding \<Rightarrow> nat \<Rightarrow> error + similarity_result list" where
  \<comment> \<open>\<^verbatim>\<open>results.sort((a, b) => b.similarity - a.similarity).slice(0, topK)\<close>; the sort is stable\<close>
  "findSimilar st queryEmbedding topK =
     (case allSimilarities queryEmbedding (getAllDocuments st) of
        Inl e \<Rightarrow> Inl e
      | Inr results \<Rightarrow> Inr (take topK (sort_key (\<lambda>r. - similarity r) results)))"

definition createExcerpt :: "string \<Rightarrow> nat \<Rightarrow> string" where
  "createExcerpt c maxLength =
     (if length c \<le> maxLength then c
      else
        (let truncated = slice c 0 maxLength;
             lastSpace = lastIndexOf truncated (CHR 0x20)
         in if real_of_int lastSpace > real maxLength * 0.8
            then slice truncated 0 (nat lastSpace) @ ''...''
            else truncated @ ''...''))"

definition createDocumentSource ::
  "processed_document \<Rightarrow> document_chunk option \<Rightarrow> real \<Rightarrow> document_source" where
  "createDocumentSource d chunk sim =
     \<lparr> source_id = (case chunk of Some c \<Rightarrow> chunk_id c | None \<Rightarrow> doc_id d),
       source_title = doc_title d,
       excerpt = createExcerpt (case chunk of Some c \<Rightarrow> chunk_content c | None \<Rightarrow> doc_content d) 200,
       source_section = doc_section d,
       relevanceScore = sim \<rparr>"

text \<open>
  \<^verbatim>\<open>calculateConfidence\<close>. The \<^verbatim>\<open>forEach\<close> loop carries the index and the pair
  \<^verbatim>\<open>(weightedSum, totalWeight)\<close>. \<^verbatim>\<open>Math.round\<close> rounds to the nearest integer, a half
  upwards.
\<close>

fun confidenceLoop :: "document_source list \<Rightarrow> nat \<Rightarrow> real \<times> real \<Rightarrow> real \<times> real" where
  "confidenceLoop [] index acc = acc"
| "confidenceLoop (source # rest) index (weightedSum, totalWeight) =
     (let weight = 1 / (real index + 1)
      in confidenceLoop rest (index + 1)
           (weightedSum + relevanceScore source * weight, totalWeight + weight))"

definition mathRound :: "real \<Rightarrow> real" where
  "mathRound x = of_int \<lfloor>x + 1 / 2\<rfloor>"

definition calculateConfidence :: "document_source list \<Rightarrow> real" where
  "calculateConfidence srcs =
     (if length srcs = 0 then 0
      else
        (case confidenceLoop srcs 0 (0, 0) of (weightedSum, totalWeight) \<Rightarrow>
           let averageRelevance = weightedSum / totalWeight;
               confidence0 = min (averageRelevance * 1.2) 1.0;
               confidence1 = (if length srcs \<ge> 3 then min (confidence0 * 1.1) 1.0 else confidence0)
           in mathRound (confidence1 * 100) / 100))"

definition sectionName :: "OnboardingSectionType \<Rightarrow> string" where
  "sectionName s =
     (case s of PROFILE \<Rightarrow> ''PROFILE'' | PERSONAL_INFO \<Rightarrow> ''PERSONAL_INFO'' | PAYMENT \<Rightarrow> ''PAYMENT''
      | TOURS \<Rightarrow> ''TOURS'' | CALENDAR \<Rightarrow> ''CALENDAR'' | QUIZ \<Rightarrow> ''QUIZ'')"

definition joinWith :: "string \<Rightarrow> string list \<Rightarrow> string" where
  "joinWith sep xs = (case xs of [] \<Rightarrow> [] | x # rest \<Rightarrow> x @ concat (map (\<lambda>y. sep @ y) rest))"

text \<open>
  A JavaScript value used as a condition: an absent or empty \<^verbatim>\<open>context\<close> is falsy.
\<close>

definition truthy :: "string option \<Rightarrow> bool" where
  "truthy c = (case c of None \<Rightarrow> False | Some s \<Rightarrow> s \<noteq> [])"

definition systemPrompt :: "string \<Rightarrow> document_source list \<Rightarrow> string option \<Rightarrow> string" where
  "systemPrompt question srcs ctx =
     (let contextualInfo =
            joinWith [CHR 0x0A, CHR 0x0A]
              (map (\<lambda>source. ''From '' @ source_title source @ '' ('' @ sectionName (source_section source)
                                @ ''): '' @ excerpt source) srcs)
      in joinWith [CHR 0x0A]
          [''You are a helpful assistant for the ToursByLocals onboarding process. '',
           '''',
           ''CRITICAL GROUNDING INSTRUCTIONS:'',
           ''- You MUST ONLY use the context from documentation provided below'',
           ''- DO NOT use any information from your training data that is not explicitly provided in the context'',
           ''- If the provided context doesn't contain enough information to answer the question completely, say so explicitly'',
           ''- Always cite the specific document sources when providing information'',
           ''- Be specific and actionable in your responses'',
           ''- If information is missing or unclear in the context, state what additional documentation would be needed'',
           '''',
           ''FORMATTING REQUIREMENTS:'',
           ''- Use PLAIN TEXT ONLY - absolutely NO markdown formatting'',
           ''- Do NOT use headers, bold text, italic text, or any special formatting'',
           ''- Write in simple, clear paragraphs using normal sentences'',
           ''- Use numbered lists for steps but without special formatting'',
           ''- Use simple dashes for bullet points if needed'',
           ''- Keep responses conversational and easy to read'',
           '''',
           ''PROVIDED DOCUMENTATION CONTEXT:'',
           contextualInfo,
           '''',
           (if truthy ctx then ''Additional context: '' @ the ctx else ''''),
           '''',
           ''USER QUESTION: '' @ question,
           '''',
           ''Based ONLY on the documentation context provided above, please provide a clear, well-structured, and helpful answer using PLAIN TEXT ONLY. Organize your response with simple paragraphs and lists. If the context doesn't contain sufficient information to fully answer the question, explicitly state what information is missing and suggest what additional documentation sections might be helpful.''])"

text \<open>
  \<^verbatim>\<open>generateContextualAnswer\<close> calls the generation model once; a failure of the model is
  caught and answered with a fixed apology. The second component of the result lists
  the prompts sent to the generation model.
\<close>

definition generateContextualAnswer ::
  "generator \<Rightarrow> string \<Rightarrow> document_source list \<Rightarrow> string option \<Rightarrow> string \<times> string list" where
  "generateContextualAnswer generateResponse question srcs ctx =
     (let prompt = systemPrompt question srcs ctx
      in (case generateResponse prompt of
            Inr rawAnswer \<Rightarrow> formatResponseForFrontend rawAnswer
          | Inl e \<Rightarrow> ''I'm having trouble generating a response right now. Please try again or contact support for assistance with your onboarding question.'',
          [prompt]))"

definition queryText :: "string \<Rightarrow> string option \<Rightarrow> string" where
  "queryText question ctx =
     (if truthy ctx then the ctx @ [CHR 0x0A, CHR 0x0A] @ question else question)"

record rag_state =
  isInitialized :: bool
  vstore :: vector_store

definition notEnoughInformation :: string where
  "notEnoughInformation = ''I don't have enough relevant information to answer that question. Could you please rephrase or ask about a specific onboarding section?''"

definition relevantSources :: "similarity_result list \<Rightarrow> document_source list" where
  "relevantSources similarResults =
     map (\<lambda>result. createDocumentSource (sr_document result) (sr_chunk result) (similarity result))
       (take maxSources (filter (\<lambda>result. similarity result \<ge> similarityThreshold) similarResults))"

text \<open>
  \<^verbatim>\<open>RAGServiceImpl.query\<close>. The result pairs the response (or the error thrown) with the
  prompts sent to the generation model during the call.
\<close>

definition query ::
  "embedder \<Rightarrow> generator \<Rightarrow> rag_state \<Rightarrow> string \<Rightarrow> string option \<Rightarrow> (error + rag_response) \<times> string list" where
  "query generateEmbeddings generateResponse st question ctx =
     (if \<not> isInitialized st
      then (Inl (Error ''RAG system not initialized. Call initialize() first.''), [])
      else
        (let wrap = (\<lambda>e. Error (''Failed to process RAG query: '' @ message e));
             queryEmbeddingResult = generateEmbeddings (queryText question ctx)
         in case queryEmbeddingResult of
              Inl e \<Rightarrow> (Inl (wrap e), [])
            | Inr queryEmbedding \<Rightarrow>
                (case findSimilar (vstore st) queryEmbedding (maxSources * 2) of
                   Inl e \<Rightarrow> (Inl (wrap e), [])
                 | Inr similarResults \<Rightarrow>
                     (let srcs = relevantSources similarResults
                      in if length srcs = 0
                         then (Inr \<lparr> answer = notEnoughInformation, sources = [], confidence = 0 \<rparr>, [])
                         else
                           (case generateContextualAnswer generateResponse question srcs ctx of
                              (ans, prompts) \<Rightarrow>
                                (Inr \<lparr> answer = ans, sources = srcs,
                                       confidence = calculateConfidence srcs \<rparr>, prompts))))))"

text \<open>
  \<^verbatim>\<open>RAGServiceImpl.initialize\<close>, written against its two collaborators as the source is
  (the service reaches them through \<^verbatim>\<open>documentProcessorService()\<close> and \<^verbatim>\<open>vectorStore()\<close>,
  and awaits a promise from each call, which may reject). Clearing is the in-memory
  store's \<^verbatim>\<open>clear\<close>, which has no failing step. \<open>addAll\<close> is the insertion loop: it
  stops at the first insertion that fails and keeps what was inserted before.
\<close>

fun addAll ::
  "(processed_document \<Rightarrow> vector_store \<Rightarrow> error + vector_store) \<Rightarrow> processed_document list
     \<Rightarrow> vector_store \<Rightarrow> error option \<times> vector_store" where
  "addAll add [] s = (None, s)"
| "addAll add (d # ds) s =
     (case add d s of Inl e \<Rightarrow> (Some e, s) | Inr s' \<Rightarrow> addAll add ds s')"

definition initialize_with ::
  "(document list \<Rightarrow> error + processed_document list)
     \<Rightarrow> (processed_document \<Rightarrow> vector_store \<Rightarrow> error + vector_store)
     \<Rightarrow> rag_state \<Rightarrow> document list \<Rightarrow> (error + unit) \<times> rag_state" where
  "initialize_with process add st documents =
     (let wrap = (\<lambda>e. Error (''Failed to initialize RAG system: '' @ message e));
          st1 = st\<lparr> vstore := store_clear (vstore st) \<rparr>
      in case process documents of
           Inl e \<Rightarrow> (Inl (wrap e), st1)
         | Inr processedDocuments \<Rightarrow>
             (case addAll add processedDocuments (vstore st1) of
                (Some e, s) \<Rightarrow> (Inl (wrap e), st1\<lparr> vstore := s \<rparr>)
              | (None, s) \<Rightarrow> (Inr (), st1\<lparr> vstore := s, isInitialized := True \<rparr>)))"

text \<open>The service with the repository's own document processor and in-memory store.\<close>

definition initialize :: "embedder \<Rightarrow> rag_state \<Rightarrow> document list \<Rightarrow> (error + unit) \<times> rag_state" where
  "initialize generateEmbeddings =
     initialize_with (\<lambda>documents. Inr (processDocuments generateEmbeddings documents))
       (\<lambda>d s. Inr (store_addDocument d s))"

text \<open>
  The confidence formula in the words of the specification: the average of the scores
  weighted by \<open>1 / (rank + 1)\<close>, times 1.2 and clamped to 1, for three or more sources
  times 1.1 and clamped again, rounded to two decimals.
\<close>

definition weightedAverage :: "real list \<Rightarrow> real" where
  "weightedAverage ss =
     (\<Sum>i<length ss. ss ! i * (1 / (real i + 1))) / (\<Sum>i<length ss. 1 / (real i + 1))"

definition specConfidence :: "real list \<Rightarrow> real" where
  "specConfidence ss =
     (let scaled = min (weightedAverage ss * 1.2) 1.0;
          boosted = (if length ss \<ge> 3 then min (scaled * 1.1) 1.0 else scaled)
      in of_int (round (boosted * 100)) / 100)"


section \<open>Corpus loader\<close>

text \<open>
  \<^verbatim>\<open>OnboardingDataService\<close> runs on JavaScript's single thread: a call runs without
  interruption up to its first \<^verbatim>\<open>await\<close>, and what follows an \<^verbatim>\<open>await\<close> runs later, once the
  awaited promise has settled. The state holds the three fields of the service, the
  promises returned by \<^verbatim>\<open>performLoad\<close> so far (a promise is named by its position), and
  the loads whose starting caller is suspended at \<^verbatim>\<open>await this.loadingPromise\<close> with its
  \<^verbatim>\<open>finally\<close> block still to run.
\<close>

datatype promise_state = Pending | Fulfilled | Rejected

datatype call_outcome = ReturnsAtOnce | AwaitsShared nat | StartsLoad nat

record loader_state =
  isLoaded :: bool
  isLoading :: bool
  loadingPromise :: "nat option"
  promises :: "promise_state list"
  awaiting :: "nat set"

definition initialLoader :: loader_state where
  "initialLoader = \<lparr> isLoaded = False, isLoading = False, loadingPromise = None,
                      promises = [], awaiting = {} \<rparr>"

text \<open>
  A call of \<^verbatim>\<open>loadOnboardingDocumentation\<close>, up to its first suspension: it returns at once,
  or returns the shared promise, or starts \<^verbatim>\<open>performLoad\<close> (one call of
  \<^verbatim>\<open>ragService().initialize\<close>) and awaits its promise.
\<close>

definition loadOnboardingDocumentation :: "loader_state \<Rightarrow> call_outcome \<times> loader_state" where
  "loadOnboardingDocumentation s =
     (if isLoaded s then (ReturnsAtOnce, s)
      else if isLoading s \<and> loadingPromise s \<noteq> None
      then (AwaitsShared (the (loadingPromise s)), s)
      else
        (let p = length (promises s)
         in (StartsLoad p,
             s\<lparr> isLoading := True, loadingPromise := Some p,
                promises := promises s @ [Pending], awaiting := insert p (awaiting s) \<rparr>)))"

text \<open>
  The continuations. \<^verbatim>\<open>performLoad\<close> resumes when the initialisation has settled: it sets
  \<^verbatim>\<open>isLoaded\<close> to true and fulfils its promise, or sets it to false and rejects. The
  \<^verbatim>\<open>finally\<close> block of the caller that started a load runs after that promise has settled.
\<close>

definition performLoad_resolves :: "nat \<Rightarrow> loader_state \<Rightarrow> loader_state option" where
  "performLoad_resolves p s =
     (if p < length (promises s) \<and> promises s ! p = Pending
      then Some (s\<lparr> isLoaded := True, promises := (promises s)[p := Fulfilled] \<rparr>)
      else None)"

definition performLoad_rejects :: "nat \<Rightarrow> loader_state \<Rightarrow> loader_state option" where
  "performLoad_rejects p s =
     (if p < length (promises s) \<and> promises s ! p = Pending
      then Some (s\<lparr> isLoaded := False, promises := (promises s)[p := Rejected] \<rparr>)
      else None)"

definition finallyBlock :: "nat \<Rightarrow> loader_state \<Rightarrow> loader_state option" where
  "finallyBlock p s =
     (if p \<in> awaiting s \<and> p < length (promises s) \<and> promises s ! p \<noteq> Pending
      then Some (s\<lparr> isLoading := False, loadingPromise := None, awaiting := awaiting s - {p} \<rparr>)
      else None)"

text \<open>
  The runs of the service under calls of \<^verbatim>\<open>loadOnboardingDocumentation\<close>: any interleaving
  of calls and enabled continuations.
\<close>

datatype loader_event = Call | Resolves nat | Rejects nat | Finally nat

fun applyEvent :: "loader_event \<Rightarrow> loader_state \<Rightarrow> loader_state option" where
  "applyEvent Call s = Some (snd (loadOnboardingDocumentation s))"
| "applyEvent (Resolves p) s = performLoad_resolves p s"
| "applyEvent (Rejects p) s = performLoad_rejects p s"
| "applyEvent (Finally p) s = finallyBlock p s"

inductive reachable :: "loader_state \<Rightarrow> bool" where
  start: "reachable initialLoader"
| step: "reachable s \<Longrightarrow> applyEvent e s = Some s' \<Longrightarrow> reachable s'"

text \<open>The loads in flight: the promises of \<^verbatim>\<open>performLoad\<close> that have not settled.\<close>

definition inFlight :: "loader_state \<Rightarrow> nat list" where
  "inFlight s = filter (\<lambda>p. promises s ! p = Pending) [0..<length (promises s)]"

text \<open>\<open>n\<close> calls in a row, with no continuation in between, and what each caller gets.\<close>

fun callN :: "nat \<Rightarrow> loader_state \<Rightarrow> call_outcome list \<times> loader_state" where
  "callN 0 s = ([], s)"
| "callN (Suc n) s =
     (case loadOnboardingDocumentation s of
        (outcome, s1) \<Rightarrow> (case callN n s1 of (outcomes, s2) \<Rightarrow> (outcome # outcomes, s2)))"

definition loadingLoader :: loader_state where
  "loadingLoader = \<lparr> isLoaded = False, isLoading = True, loadingPromise = Some 0,
                      promises = [Pending], awaiting = {0} \<rparr>"

definition loaderInvariant :: "loader_state \<Rightarrow> bool" where
  "loaderInvariant s \<longleftrightarrow>
     (\<forall>p. (p < length (promises s) \<and> promises s ! p = Pending) \<or> p \<in> awaiting s
          \<longrightarrow> isLoading s \<and> loadingPromise s = Some p)
     \<and> (isLoaded s \<longrightarrow> (\<forall>p < length (promises s). promises s ! p \<noteq> Pending))"

definition loadedLoader :: loader_state where
  "loadedLoader = \<lparr> isLoaded = True, isLoading = True, loadingPromise = Some 0,
                     promises = [Fulfilled], awaiting = {0} \<rparr>"

section \<open>Example data\<close>

definition exampleChunk :: document_chunk where
  "exampleChunk = \<lparr> chunk_id = ''profile-doc_chunk_0'', chunk_content = ''Upload a professional photo.'',
      chunk_embedding = [1, 0], chunk_documentId = ''profile-doc'',
      chunk_startIndex = 0, chunk_endIndex = 28 \<rparr>"

definition exampleDocument :: processed_document where
  "exampleDocument = \<lparr> doc_id = ''profile-doc'', doc_title = ''Profile Setup Guide'',
      doc_content = ''Upload a professional photo.'', doc_section = PROFILE,
      embedding = [1, 0], chunks = [exampleChunk] \<rparr>"

definition exampleState :: rag_state where
  "exampleState = \<lparr> isInitialized = True, vstore = [(''profile-doc'', exampleDocument)] \<rparr>"

definition exampleResponse :: rag_response where
  "exampleResponse =
     \<lparr> answer = ''Upload a professional photo.'',
       sources =
         [\<lparr> source_id = ''profile-doc'', source_title = ''Profile Setup Guide'',
            excerpt = ''Upload a professional photo.'', source_section = PROFILE, relevanceScore = 1 \<rparr>,
          \<lparr> source_id = ''profile-doc_chunk_0'', source_title = ''Profile Setup Guide'',
            excerpt = ''Upload a professional photo.'', source_section = PROFILE, relevanceScore = 1 \<rparr>],
       confidence = 1 \<rparr>"

definition longDocument :: document where
  "longDocument = \<lparr> doc_id = ''tours-doc'', doc_title = ''Tour Creation'',
      doc_content = replicate 1199 (CHR ''a'') @ ''.'' @ replicate 400 (CHR ''a''),
      doc_section = TOURS \<rparr>"

definition spacedDocument :: document where
  "spacedDocument = \<lparr> doc_id = ''profile-doc'', doc_title = ''Profile Setup Guide'',
      doc_content = ''Upload   a professional photo.  '', doc_section = PROFILE \<rparr>"

section \<open>Cosine similarity\<close>









section \<open>Plain-text formatting\<close>















section \<open>Confidence and the query\<close>

lemma confidenceLoop_sums:
  "confidenceLoop srcs k (a, b) =
     (a + (\<Sum>i<length srcs. relevanceScore (srcs ! i) * (1 / (real (k + i) + 1))),
      b + (\<Sum>i<length srcs. 1 / (real (k + i) + 1)))"
proof (induction srcs arbitrary: k a b)
  case Nil
  then show ?case by simp
next
  case (Cons s srcs)
  show ?case
    by (simp add: Cons.IH Let_def sum.lessThan_Suc_shift add.assoc algebra_simps del: sum.lessThan_Suc)
qed

lemma totalWeight_pos: "0 < n \<Longrightarrow> 0 < (\<Sum>i<n. 1 / (real i + 1))"
  by (rule sum_pos) auto

lemma calculateConfidence_spec:
  "srcs \<noteq> [] \<Longrightarrow> calculateConfidence srcs = specConfidence (map relevanceScore srcs)"
  by (simp add: calculateConfidence_def specConfidence_def weightedAverage_def confidenceLoop_sums
      mathRound_def round_def Let_def)

lemma weightedAverage_lower:
  assumes "ss \<noteq> []" "\<forall>s\<in>set ss. t \<le> s"
  shows "t \<le> weightedAverage ss"
proof -
  let ?W = "\<Sum>i<length ss. 1 / (real i + 1)"
  have W: "0 < ?W" using assms(1) by (intro totalWeight_pos) simp
  have "t * ?W = (\<Sum>i<length ss. t * (1 / (real i + 1)))" by (simp add: sum_distrib_left)
  also have "\<dots> \<le> (\<Sum>i<length ss. ss ! i * (1 / (real i + 1)))"
    using assms(2) by (intro sum_mono mult_right_mono) auto
  finally show ?thesis using W by (simp add: weightedAverage_def pos_le_divide_eq)
qed

lemma specConfidence_lower:
  assumes "ss \<noteq> []" "\<forall>s\<in>set ss. 0.3 \<le> s"
  shows "0.36 \<le> specConfidence ss"
proof -
  have a: "0.3 \<le> weightedAverage ss" using assms by (rule weightedAverage_lower)
  define scaled where "scaled = min (weightedAverage ss * 1.2) 1.0"
  define boosted where "boosted = (if length ss \<ge> 3 then min (scaled * 1.1) 1.0 else scaled)"
  from a have s: "0.36 \<le> scaled" by (simp add: scaled_def)
  then have b: "0.36 \<le> boosted" unfolding boosted_def min_def by (auto split: if_splits)
  then have "36 \<le> boosted * 100" by simp
  then have "(36::int) \<le> round (boosted * 100)"
    unfolding round_def by (simp add: le_floor_iff)
  then have r: "(36::real) \<le> of_int (round (boosted * 100))" by linarith
  have "specConfidence ss = of_int (round (boosted * 100)) / 100"
    unfolding specConfidence_def Let_def boosted_def scaled_def ..
  with r show ?thesis by simp
qed

lemma relevantSources_scores:
  "s \<in> set (relevantSources rs) \<Longrightarrow> similarityThreshold \<le> relevanceScore s"
  by (auto simp: relevantSources_def createDocumentSource_def dest!: in_set_takeD)






lemma query_result:
  assumes "fst (query generateEmbeddings generateResponse st question ctx) = Inr resp"
  shows "(sources resp = [] \<and> confidence resp = 0)
       \<or> (sources resp \<noteq> [] \<and> confidence resp = calculateConfidence (sources resp)
           \<and> (\<forall>s\<in>set (sources resp). similarityThreshold \<le> relevanceScore s))"
  using assms
  by (auto simp: query_def Let_def relevantSources_scores
      split: if_splits sum.splits prod.splits)

lemma example_format: "formatResponseForFrontend ''Upload a **professional** photo'' = ''Upload a professional photo.''"
  by code_simp

lemma example_findSimilar:
  "findSimilar (vstore exampleState) [1, 0] (maxSources * 2) =
     Inr [\<lparr> sr_document = exampleDocument, sr_chunk = None, similarity = 1 \<rparr>,
          \<lparr> sr_document = exampleDocument, sr_chunk = Some exampleChunk, similarity = 1 \<rparr>]"
  by (simp add: findSimilar_def exampleState_def getAllDocuments_def exampleDocument_def
      exampleChunk_def cosineSimilarity_def maxSources_def)

lemma example_query:
  "fst (query (\<lambda>t. Inr [1, 0]) (\<lambda>p. Inr ''Upload a **professional** photo'') exampleState
          ''How do I set up my profile photo?'' None) = Inr exampleResponse"
proof -
  let ?rs = "[\<lparr> sr_document = exampleDocument, sr_chunk = None, similarity = 1 \<rparr>,
          \<lparr> sr_document = exampleDocument, sr_chunk = Some exampleChunk, similarity = 1 \<rparr>]"
  have srcs: "relevantSources ?rs = sources exampleResponse"
    by (simp add: relevantSources_def maxSources_def similarityThreshold_def
        createDocumentSource_def createExcerpt_def exampleResponse_def exampleDocument_def
        exampleChunk_def)
  have conf: "calculateConfidence (sources exampleResponse) = 1"
    by (simp add: calculateConfidence_def mathRound_def exampleResponse_def)
  have ans: "fst (generateContextualAnswer (\<lambda>p. Inr ''Upload a **professional** photo'') qn
               (sources exampleResponse) None) = ''Upload a professional photo.''" for qn
    by (simp add: generateContextualAnswer_def example_format Let_def)
  have init: "isInitialized exampleState" by (simp add: exampleState_def)
  have ne: "length (sources exampleResponse) \<noteq> 0" by (simp add: exampleResponse_def)
  show ?thesis
    using ne
    by (simp add: query_def init example_findSimilar srcs conf ans Let_def split_beta)
      (simp add: exampleResponse_def)
qed





text \<open>
  C3. For every response the query returns, the confidence is 0 exactly when the list of
  sources is empty; a non-empty list of sources gives a confidence of at least 0.36.
\<close>

theorem query_confidence_zero_iff:
  assumes "fst (query generateEmbeddings generateResponse st question ctx) = Inr resp"
  shows "(confidence resp = 0 \<longleftrightarrow> sources resp = [])
       \<and> (sources resp \<noteq> [] \<longrightarrow> 0.36 \<le> confidence resp)"
proof (cases "sources resp = []")
  case True
  with query_result [OF assms] show ?thesis by simp
next
  case False
  with query_result [OF assms]
  have c: "confidence resp = specConfidence (map relevanceScore (sources resp))"
    and s: "\<forall>s\<in>set (sources resp). 0.3 \<le> relevanceScore s"
    by (simp_all add: calculateConfidence_spec similarityThreshold_def)
  from False s have "0.36 \<le> specConfidence (map relevanceScore (sources resp))"
    by (intro specConfidence_lower) auto
  with c False show ?thesis by simp
qed

theorem query_confidence_zero_iff_witness:
  "fst (query (\<lambda>t. Inr [1, 0]) (\<lambda>p. Inr ''Upload a **professional** photo'') exampleState
          ''How do I set up my profile photo?'' None) = Inr exampleResponse
   \<and> confidence exampleResponse = 1 \<and> sources exampleResponse \<noteq> []"
  using query_confidence_zero_iff [OF example_query] example_query
  by (simp add: exampleResponse_def)

section \<open>Initialisation\<close>

lemma addAll_concrete: "fst (addAll (\<lambda>d s. Inr (store_addDocument d s)) ds s) = None"
  by (induction ds arbitrary: s) auto

text \<open>
  With the repository's own document processor, which drops the documents it cannot
  process, and its in-memory store, \<^verbatim>\<open>initialize\<close> has no failing step.
\<close>

lemma initialize_never_fails: "fst (initialize generateEmbeddings st documents) = Inr ()"
proof -
  obtain e s where a: "addAll (\<lambda>d s. Inr (store_addDocument d s))
      (processDocuments generateEmbeddings documents) [] = (e, s)" by (cases "addAll (\<lambda>d s. Inr (store_addDocument d s))
      (processDocuments generateEmbeddings documents) []")
  with addAll_concrete [of "processDocuments generateEmbeddings documents" "[]"] have "e = None" by simp
  with a show ?thesis by (simp add: initialize_def initialize_with_def store_clear_def Let_def)
qed

text \<open>
  C10 (as amended). \<^verbatim>\<open>initialize\<close> clears the store before anything else. When processing
  or an insertion then fails, the call throws the wrapped error, the flag
  \<^verbatim>\<open>isInitialized\<close> keeps the value it had before the call, and the store is not
  restored: it is empty when processing failed, and otherwise holds the documents
  inserted, from the empty store, before the failing insertion.
\<close>

theorem initialize_failure:
  assumes "fst (initialize_with process add st documents) = Inl err"
  shows "isInitialized (snd (initialize_with process add st documents)) = isInitialized st
       \<and> vstore (snd (initialize_with process add st documents)) =
           (case process documents of Inl e \<Rightarrow> [] | Inr pds \<Rightarrow> snd (addAll add pds []))
       \<and> (\<exists>e. err = Error (''Failed to initialize RAG system: '' @ message e))"
  using assms
  by (auto simp: initialize_with_def store_clear_def Let_def split: sum.splits prod.splits option.splits)

theorem initialize_failure_witness:
  "fst (initialize_with (\<lambda>ds. Inl (Error ''Processing failed'')) (\<lambda>d s. Inr (store_addDocument d s))
         exampleState []) = Inl (Error ''Failed to initialize RAG system: Processing failed'')
   \<and> isInitialized (snd (initialize_with (\<lambda>ds. Inl (Error ''Processing failed''))
         (\<lambda>d s. Inr (store_addDocument d s)) exampleState [])) = isInitialized exampleState
   \<and> vstore (snd (initialize_with (\<lambda>ds. Inl (Error ''Processing failed''))
         (\<lambda>d s. Inr (store_addDocument d s)) exampleState [])) = []"
proof -
  have f: "fst (initialize_with (\<lambda>ds. Inl (Error ''Processing failed'')) (\<lambda>d s. Inr (store_addDocument d s))
         exampleState []) = Inl (Error ''Failed to initialize RAG system: Processing failed'')"
    by (simp add: initialize_with_def Let_def)
  from initialize_failure [OF f] f show ?thesis by simp
qed

text \<open>
  A service that is ready, with a document in the store, stays ready when a
  re-initialisation fails: the flag is still true, the store is empty.
\<close>

theorem initialize_failure_stays_initialized:
  "vstore exampleState = [(''profile-doc'', exampleDocument)]
   \<and> isInitialized exampleState
   \<and> initialize_with (\<lambda>ds. Inl (Error ''Processing failed'')) (\<lambda>d s. Inr (store_addDocument d s))
         exampleState [] =
       (Inl (Error ''Failed to initialize RAG system: Processing failed''),
        \<lparr> isInitialized = True, vstore = [] \<rparr>)"
  by (simp add: initialize_with_def Let_def exampleState_def store_clear_def)

section \<open>Chunking\<close>

lemma lastIndexOf_from_bound:
  "lastIndexOf_from c s i found = found
   \<or> (i \<le> lastIndexOf_from c s i found \<and> lastIndexOf_from c s i found < i + int (length s))"
proof (induction s arbitrary: i found)
  case Nil
  then show ?case by simp
next
  case (Cons x xs)
  from Cons.IH [of "i + 1" "if x = c then i else found"] show ?case
    by (auto split: if_splits)
qed

lemma lastIndexOf_less: "lastIndexOf s c < int (length s)"
  using lastIndexOf_from_bound [of c s 0 "- 1"] by (auto simp: lastIndexOf_def)

lemma length_slice: "length (slice s i j) = min (j - i) (length s - i)"
  by (simp add: slice_def)

lemma slice_length_again: "slice s i (i + length (slice s i j)) = slice s i j"
  by (simp add: slice_def min_def take_all)

lemma chunkContentAt_slice:
  "\<exists>e. chunkContentAt content s = slice content s e"
  by (auto simp: chunkContentAt_def Let_def)

lemma chunkContentAt_is_slice:
  "chunkContentAt content s = slice content s (s + length (chunkContentAt content s))"
  using chunkContentAt_slice [of content s] slice_length_again by metis

lemma chunkContentAt_length:
  assumes "s < length content"
  shows "1 \<le> length (chunkContentAt content s)"
    and "s + length (chunkContentAt content s) \<le> length content"
proof -
  define w where "w = slice content s (min (s + chunkSize) (length content))"
  have lw: "length w = min (s + chunkSize) (length content) - s"
    using assms by (auto simp: w_def length_slice)
  have w1: "1 \<le> length w" using assms by (simp add: lw chunkSize_def)
  have w2: "s + length w \<le> length content" using assms by (simp add: lw)
  define bp where "bp = max (lastIndexOf w (CHR ''.'')) (lastIndexOf w (CHR 0x0A))"
  have bpw: "bp < int (length w)" by (simp add: bp_def lastIndexOf_less)
  have cut: "length (slice content s (s + nat (bp + 1))) = nat (bp + 1)"
    if "2 * bp > 2 * int s + int chunkSize"
  proof -
    from that have "0 \<le> bp" by simp
    with bpw have "nat (bp + 1) \<le> length w" by simp
    with w2 show ?thesis by (simp add: length_slice)
  qed
  have cases: "chunkContentAt content s = w
      \<or> (2 * bp > 2 * int s + int chunkSize \<and> chunkContentAt content s = slice content s (s + nat (bp + 1)))"
    by (auto simp: chunkContentAt_def Let_def w_def bp_def)
  show "1 \<le> length (chunkContentAt content s)"
    using cases w1 cut by (auto simp: chunkSize_def)
  show "s + length (chunkContentAt content s) \<le> length content"
  proof -
    { assume c: "2 * bp > 2 * int s + int chunkSize"
      then have "0 \<le> bp" by simp
      with bpw have "nat (bp + 1) \<le> length w" by simp
      with w2 cut [OF c] have "s + length (slice content s (s + nat (bp + 1))) \<le> length content"
        by simp }
    with cases w2 show ?thesis by auto
  qed
qed

lemma chunkLoop_unfold:
  "s < length content \<Longrightarrow>
   chunkLoop content s k = (k, s, chunkContentAt content s) # chunkLoop content (nextStart content s) (k + 1)"
  by (subst chunkLoop.simps) (simp add: Let_def nextStart_def)

lemma chunkLoop_done: "\<not> s < length content \<Longrightarrow> chunkLoop content s k = []"
  by (subst chunkLoop.simps) simp

lemma nextStart_bounds:
  assumes "s < length content"
  shows "s < nextStart content s" "nextStart content s \<le> s + length (chunkContentAt content s)"
  using chunkContentAt_length(1) [OF assms] by (auto simp: nextStart_def)

lemma chunkLoop_entries:
  "p \<in> set (chunkLoop content s k) \<Longrightarrow>
   s \<le> fst (snd p) \<and> fst (snd p) < length content \<and> 1 \<le> length (snd (snd p))
   \<and> fst (snd p) + length (snd (snd p)) \<le> length content
   \<and> snd (snd p) = slice content (fst (snd p)) (fst (snd p) + length (snd (snd p)))"
proof (induction "length content - s" arbitrary: s k rule: less_induct)
  case less
  show ?case
  proof (cases "s < length content")
    case False
    with less.prems show ?thesis by (simp add: chunkLoop_done)
  next
    case True
    note nb = nextStart_bounds [OF True]
    from less.prems True
    consider "p = (k, s, chunkContentAt content s)"
      | "p \<in> set (chunkLoop content (nextStart content s) (k + 1))"
      by (auto simp: chunkLoop_unfold)
    then show ?thesis
    proof cases
      case 1
      with True chunkContentAt_length [OF True] chunkContentAt_is_slice [of content s]
      show ?thesis by simp
    next
      case 2
      have "length content - nextStart content s < length content - s"
        using True nb by simp
      from less.hyps [OF this 2] nb show ?thesis by simp
    qed
  qed
qed

lemma chunkLoop_sorted:
  "sorted (map (\<lambda>p. fst (snd p)) (chunkLoop content s k))"
proof (induction "length content - s" arbitrary: s k rule: less_induct)
  case less
  show ?case
  proof (cases "s < length content")
    case False
    then show ?thesis by (simp add: chunkLoop_done)
  next
    case True
    note nb = nextStart_bounds [OF True]
    have "length content - nextStart content s < length content - s"
      using True nb by simp
    from less.hyps [OF this]
    have "sorted (map (\<lambda>p. fst (snd p)) (chunkLoop content (nextStart content s) (k + 1)))" .
    moreover have "s \<le> fst (snd p)" if "p \<in> set (chunkLoop content (nextStart content s) (k + 1))" for p
      using chunkLoop_entries [OF that] nb by simp
    ultimately show ?thesis using True by (auto simp: chunkLoop_unfold)
  qed
qed

lemma chunkLoop_cover:
  "s \<le> i \<Longrightarrow> i < length content \<Longrightarrow>
   \<exists>p\<in>set (chunkLoop content s k). fst (snd p) \<le> i \<and> i < fst (snd p) + length (snd (snd p))"
proof (induction "length content - s" arbitrary: s k rule: less_induct)
  case less
  from less.prems have True: "s < length content" by simp
  note nb = nextStart_bounds [OF True]
  show ?case
  proof (cases "i < s + length (chunkContentAt content s)")
    case True
    with less.prems \<open>s < length content\<close> show ?thesis by (auto simp: chunkLoop_unfold)
  next
    case False
    with nb have i: "nextStart content s \<le> i" by simp
    have "length content - nextStart content s < length content - s"
      using \<open>s < length content\<close> nb by simp
    from less.hyps [OF this i less.prems(2), of "k + 1"] \<open>s < length content\<close>
    show ?thesis by (auto simp: chunkLoop_unfold)
  qed
qed

lemma embedChunks_spans:
  "embedChunks ge d ps = Inr cs \<Longrightarrow>
   map (\<lambda>c. (chunk_startIndex c, chunk_endIndex c, chunk_content c)) cs =
   map (\<lambda>p. (fst (snd p), fst (snd p) + length (snd (snd p)), trim (snd (snd p)))) ps"
proof (induction ps arbitrary: cs)
  case Nil
  then show ?case by simp
next
  case (Cons p ps)
  obtain k st cc where p: "p = (k, st, cc)" by (cases p)
  from Cons.prems obtain emb cs' where
    "ge cc = Inr emb" and cs': "embedChunks ge d ps = Inr cs'" and
    cs: "cs = \<lparr> chunk_id = d @ ''_chunk_'' @ decimal k, chunk_content = trim cc,
             chunk_embedding = emb, chunk_documentId = d, chunk_startIndex = st,
             chunk_endIndex = st + length cc \<rparr> # cs'"
    by (auto simp: p split: sum.splits)
  from Cons.IH [OF cs'] show ?case by (simp add: cs p)
qed

lemma embedChunks_total:
  "\<forall>t. \<exists>e. ge t = Inr e \<Longrightarrow> \<exists>cs. embedChunks ge d ps = Inr cs"
proof (induction ps)
  case Nil
  then show ?case by simp
next
  case (Cons p ps)
  obtain k st cc where p: "p = (k, st, cc)" by (cases p)
  from Cons.prems obtain emb where "ge cc = Inr emb" by blast
  moreover from Cons obtain cs where "embedChunks ge d ps = Inr cs" by blast
  ultimately show ?case by (simp add: p)
qed

lemma chunkLoop_bounds:
  assumes "p \<in> set (chunkLoop content s k)"
  shows "s \<le> fst (snd p)" "fst (snd p) < fst (snd p) + length (snd (snd p))"
    "fst (snd p) + length (snd (snd p)) \<le> length content"
proof -
  from chunkLoop_entries [OF assms]
  have a: "s \<le> fst (snd p)" and b: "1 \<le> length (snd (snd p))"
    and c: "fst (snd p) + length (snd (snd p)) \<le> length content" by blast+
  from a show "s \<le> fst (snd p)" .
  from b show "fst (snd p) < fst (snd p) + length (snd (snd p))" by linarith
  from c show "fst (snd p) + length (snd (snd p)) \<le> length content" .
qed

lemma chunkLoop_slices:
  assumes "p \<in> set (chunkLoop content s k)"
  shows "snd (snd p) = slice content (fst (snd p)) (fst (snd p) + length (snd (snd p)))"
  using chunkLoop_entries [OF assms] by blast

lemma createDocumentChunks_total:
  "\<forall>t. \<exists>e. ge t = Inr e \<Longrightarrow> \<exists>cs. createDocumentChunks ge doc = Inr cs"
proof -
  assume a: "\<forall>t. \<exists>e. ge t = Inr e"
  then obtain e where "ge (doc_content doc) = Inr e" by blast
  with embedChunks_total [OF a] show ?thesis
    by (auto simp: createDocumentChunks_def)
qed

lemma createDocumentChunks_long:
  assumes "createDocumentChunks ge doc = Inr cs" "chunkSize < length (doc_content doc)"
  shows "map (\<lambda>c. (chunk_startIndex c, chunk_endIndex c, chunk_content c)) cs =
   map (\<lambda>p. (fst (snd p), fst (snd p) + length (snd (snd p)), trim (snd (snd p))))
     (chunkLoop (doc_content doc) 0 0)"
  using assms by (auto simp: createDocumentChunks_def intro: embedChunks_spans)

lemma long_chunk:
  assumes "createDocumentChunks ge doc = Inr cs" "chunkSize < length (doc_content doc)" "c \<in> set cs"
  shows "\<exists>p\<in>set (chunkLoop (doc_content doc) 0 0).
           chunk_startIndex c = fst (snd p) \<and> chunk_endIndex c = fst (snd p) + length (snd (snd p))
           \<and> chunk_content c = trim (snd (snd p))"
proof -
  let ?f = "\<lambda>c. (chunk_startIndex c, chunk_endIndex c, chunk_content c)"
  let ?g = "\<lambda>p::nat \<times> nat \<times> string. (fst (snd p), fst (snd p) + length (snd (snd p)), trim (snd (snd p)))"
  from assms(3) have "?f c \<in> set (map ?f cs)" by simp
  also have "map ?f cs = map ?g (chunkLoop (doc_content doc) 0 0)"
    using assms(1,2) by (rule createDocumentChunks_long)
  finally obtain p where "p \<in> set (chunkLoop (doc_content doc) 0 0)" "?f c = ?g p" by auto
  then show ?thesis by auto
qed

lemma createDocumentChunks_short:
  assumes "createDocumentChunks ge doc = Inr cs" "length (doc_content doc) \<le> 800"
  shows "\<exists>c. cs = [c] \<and> chunk_startIndex c = 0 \<and> chunk_endIndex c = length (doc_content doc)"
  using assms by (auto simp: createDocumentChunks_def chunkSize_def split: sum.splits)

lemma createDocumentChunks_bounds:
  assumes cs: "createDocumentChunks ge doc = Inr cs" and long: "chunkSize < length (doc_content doc)"
    and c: "c \<in> set cs"
  shows "chunk_startIndex c < chunk_endIndex c \<and> chunk_endIndex c \<le> length (doc_content doc)"
proof -
  from long_chunk [OF cs long c] obtain p where
    p: "p \<in> set (chunkLoop (doc_content doc) 0 0)" "chunk_startIndex c = fst (snd p)"
       "chunk_endIndex c = fst (snd p) + length (snd (snd p))" by blast
  with chunkLoop_bounds(2,3) [OF p(1)] show ?thesis by simp
qed

lemma createDocumentChunks_sorted:
  assumes cs: "createDocumentChunks ge doc = Inr cs" and long: "chunkSize < length (doc_content doc)"
  shows "sorted (map chunk_startIndex cs)"
proof -
  have "map chunk_startIndex cs = map fst (map (\<lambda>c. (chunk_startIndex c, chunk_endIndex c, chunk_content c)) cs)"
    by simp
  also have "\<dots> = map (\<lambda>p. fst (snd p)) (chunkLoop (doc_content doc) 0 0)"
    unfolding createDocumentChunks_long [OF cs long] by simp
  finally show ?thesis by (simp add: chunkLoop_sorted)
qed

lemma createDocumentChunks_cover:
  assumes cs: "createDocumentChunks ge doc = Inr cs" and long: "chunkSize < length (doc_content doc)"
    and i: "i < length (doc_content doc)"
  shows "\<exists>c\<in>set cs. chunk_startIndex c \<le> i \<and> i < chunk_endIndex c"
proof -
  from chunkLoop_cover [OF _ i, of 0 0] obtain p where
    p: "p \<in> set (chunkLoop (doc_content doc) 0 0)" "fst (snd p) \<le> i"
       "i < fst (snd p) + length (snd (snd p))" by auto
  let ?f = "\<lambda>c. (chunk_startIndex c, chunk_endIndex c, chunk_content c)"
  let ?g = "\<lambda>p::nat \<times> nat \<times> string. (fst (snd p), fst (snd p) + length (snd (snd p)), trim (snd (snd p)))"
  from p(1) have "?g p \<in> set (map ?g (chunkLoop (doc_content doc) 0 0))"
    by simp
  then have "?g p \<in> set (map ?f cs)" unfolding createDocumentChunks_long [OF cs long] .
  then obtain c where c: "c \<in> set cs" "?f c = ?g p" by auto
  from c(2) have "chunk_startIndex c = fst (snd p)"
    "chunk_endIndex c = fst (snd p) + length (snd (snd p))" by simp_all
  with p(2,3) have "chunk_startIndex c \<le> i \<and> i < chunk_endIndex c" by simp
  with c(1) show ?thesis by blast
qed

text \<open>
  C4. For every document on which \<^verbatim>\<open>createDocumentChunks\<close> returns: a content of at most
  800 characters gives exactly one chunk, spanning \<open>[0, length]\<close>; a longer content
  gives chunks with \<open>startIndex < endIndex\<close>, start indices in non-decreasing order, and
  spans that leave no index of the content uncovered. The loop terminates (the model is
  a total function), and the call returns whenever every embedding request does.
\<close>

theorem createDocumentChunks_spans:
  "(\<forall>cs. createDocumentChunks ge doc = Inr cs \<longrightarrow>
      (length (doc_content doc) \<le> 800 \<longrightarrow>
         (\<exists>c. cs = [c] \<and> chunk_startIndex c = 0 \<and> chunk_endIndex c = length (doc_content doc)))
    \<and> (800 < length (doc_content doc) \<longrightarrow>
         (\<forall>c\<in>set cs. chunk_startIndex c < chunk_endIndex c
                      \<and> chunk_endIndex c \<le> length (doc_content doc))
       \<and> sorted (map chunk_startIndex cs)
       \<and> (\<forall>i<length (doc_content doc). \<exists>c\<in>set cs. chunk_startIndex c \<le> i \<and> i < chunk_endIndex c)))
   \<and> ((\<forall>t. \<exists>e. ge t = Inr e) \<longrightarrow> (\<exists>cs. createDocumentChunks ge doc = Inr cs))"
proof (intro conjI allI impI ballI)
  fix cs assume "createDocumentChunks ge doc = Inr cs" "length (doc_content doc) \<le> 800"
  then show "\<exists>c. cs = [c] \<and> chunk_startIndex c = 0 \<and> chunk_endIndex c = length (doc_content doc)"
    by (rule createDocumentChunks_short)
next
  fix cs c assume cs: "createDocumentChunks ge doc = Inr cs" and "800 < length (doc_content doc)"
    and c: "c \<in> set cs"
  then have "chunkSize < length (doc_content doc)" by (simp add: chunkSize_def)
  from createDocumentChunks_bounds [OF cs this c]
  show "chunk_startIndex c < chunk_endIndex c" "chunk_endIndex c \<le> length (doc_content doc)"
    by simp_all
next
  fix cs assume cs: "createDocumentChunks ge doc = Inr cs" and "800 < length (doc_content doc)"
  then have "chunkSize < length (doc_content doc)" by (simp add: chunkSize_def)
  with cs show "sorted (map chunk_startIndex cs)" by (rule createDocumentChunks_sorted)
next
  fix cs i assume cs: "createDocumentChunks ge doc = Inr cs" and "800 < length (doc_content doc)"
    and i: "i < length (doc_content doc)"
  then have "chunkSize < length (doc_content doc)" by (simp add: chunkSize_def)
  with cs show "\<exists>c\<in>set cs. chunk_startIndex c \<le> i \<and> i < chunk_endIndex c"
    using i by (rule createDocumentChunks_cover)
next
  assume "\<forall>t. \<exists>e. ge t = Inr e"
  then show "\<exists>cs. createDocumentChunks ge doc = Inr cs" by (rule createDocumentChunks_total)
qed

lemma lastIndexOf_from_append:
  "lastIndexOf_from c (xs @ ys) i f = lastIndexOf_from c ys (i + int (length xs)) (lastIndexOf_from c xs i f)"
  by (induction xs arbitrary: i f) (auto simp: algebra_simps)

lemma lastIndexOf_from_replicate:
  "x \<noteq> c \<Longrightarrow> lastIndexOf_from c (replicate n x) i f = f"
  by (induction n arbitrary: i) auto

text \<open>
  \<open>breakPoint\<close> is below 800, so the test \<^verbatim>\<open>breakPoint > startIndex + 400\<close> fails for every
  window that starts at index 400 or later: such a window is never cut.
\<close>

lemma chunkContentAt_no_cut:
  assumes "400 \<le> s"
  shows "chunkContentAt content s = slice content s (min (s + chunkSize) (length content))"
proof -
  define w where "w = slice content s (min (s + chunkSize) (length content))"
  have "length w \<le> chunkSize" by (simp add: w_def length_slice)
  then have "lastIndexOf w c < int chunkSize" for c
    using lastIndexOf_less [of w c] by linarith
  from this [of "CHR ''.''"] this [of "CHR 0x0A"]
  have "\<not> 2 * max (lastIndexOf w (CHR ''.'')) (lastIndexOf w (CHR 0x0A)) > 2 * int s + int chunkSize"
    using assms unfolding chunkSize_def max_def by (simp split: if_splits)
  then show ?thesis by (simp add: chunkContentAt_def Let_def w_def)
qed

lemma longDocument_length: "length (doc_content longDocument) = 1600"
  by (simp add: longDocument_def)

lemma longDocument_window0:
  "chunkContentAt (doc_content longDocument) 0 = replicate 800 (CHR ''a'')"
  by (simp add: chunkContentAt_def longDocument_def chunkSize_def slice_def Let_def
      lastIndexOf_def lastIndexOf_from_replicate)

lemma longDocument_window1:
  "slice (doc_content longDocument) 750 1550 = replicate 449 (CHR ''a'') @ ''.'' @ replicate 350 (CHR ''a'')"
  by (simp add: longDocument_def slice_def)

lemma longDocument_breakPoint:
  "lastIndexOf (slice (doc_content longDocument) 750 1550) (CHR ''.'') = 449"
  by (simp add: longDocument_window1 lastIndexOf_def lastIndexOf_from_append lastIndexOf_from_replicate)

lemma longDocument_chunk1:
  "chunkContentAt (doc_content longDocument) 750 = slice (doc_content longDocument) 750 1550"
  by (simp add: chunkContentAt_no_cut longDocument_length chunkSize_def)

text \<open>
  C5 fails on the code. In a document of 1600 characters whose only full stop is at
  index 1199, the second window starts at 750 and ends at 1550, before the end of the
  document; the full stop is at index 449 of the window, in its second half, and yet the
  chunk is the whole window \<open>[750, 1550)\<close> and not \<open>[750, 1200)\<close>.
\<close>

theorem boundary_cut_skipped:
  "length (doc_content longDocument) = 1600
   \<and> map (\<lambda>p. (fst (snd p), fst (snd p) + length (snd (snd p))))
        (take 2 (chunkLoop (doc_content longDocument) 0 0)) = [(0, 800), (750, 1550)]
   \<and> lastIndexOf (slice (doc_content longDocument) 750 1550) (CHR ''.'') = 449
   \<and> chunkContentAt (doc_content longDocument) 750 = slice (doc_content longDocument) 750 1550"
proof -
  have n0: "nextStart (doc_content longDocument) 0 = 750"
    by (simp add: nextStart_def longDocument_window0 chunkOverlap_def)
  have l1: "length (chunkContentAt (doc_content longDocument) 750) = 800"
    by (simp add: longDocument_chunk1 longDocument_window1)
  have "chunkLoop (doc_content longDocument) 0 0 =
      (0, 0, chunkContentAt (doc_content longDocument) 0)
      # (1, 750, chunkContentAt (doc_content longDocument) 750)
      # chunkLoop (doc_content longDocument) (nextStart (doc_content longDocument) 750) (Suc (Suc 0))"
    by (simp add: chunkLoop_unfold longDocument_length n0)
  then have "take 2 (chunkLoop (doc_content longDocument) 0 0) =
      [(0, 0, chunkContentAt (doc_content longDocument) 0),
       (1, 750, chunkContentAt (doc_content longDocument) 750)]"
    by simp
  then show ?thesis
    using longDocument_breakPoint longDocument_chunk1 l1
    by (simp add: longDocument_length longDocument_window0)
qed

theorem createDocumentChunks_spans_witness:
  "createDocumentChunks (\<lambda>t. Inr [1, 0]) spacedDocument =
     Inr [\<lparr> chunk_id = ''profile-doc_chunk_0'', chunk_content = ''Upload   a professional photo.  '',
            chunk_embedding = [1, 0], chunk_documentId = ''profile-doc'',
            chunk_startIndex = 0, chunk_endIndex = 32 \<rparr>]
   \<and> length (doc_content spacedDocument) = 32
   \<and> length (doc_content longDocument) = 1600
   \<and> (\<exists>cs. createDocumentChunks (\<lambda>t. Inr [1, 0]) longDocument = Inr cs
          \<and> sorted (map chunk_startIndex cs)
          \<and> (\<exists>c\<in>set cs. chunk_startIndex c \<le> 1599 \<and> 1599 < chunk_endIndex c))"
proof -
  let ?G = "\<lambda>t::string. Inr [1, 0] :: error + embedding"
  note long = createDocumentChunks_spans [of ?G longDocument]
  note short = createDocumentChunks_spans [of ?G spacedDocument]
  have s: "length (doc_content spacedDocument) = 32" by (simp add: spacedDocument_def)
  from short obtain cs0 where cs0: "createDocumentChunks ?G spacedDocument = Inr cs0" by auto
  with short s obtain c0 where "cs0 = [c0]" "chunk_startIndex c0 = 0" "chunk_endIndex c0 = 32"
    by auto
  have e: "createDocumentChunks ?G spacedDocument =
     Inr [\<lparr> chunk_id = ''profile-doc_chunk_0'', chunk_content = ''Upload   a professional photo.  '',
            chunk_embedding = [1, 0], chunk_documentId = ''profile-doc'',
            chunk_startIndex = 0, chunk_endIndex = 32 \<rparr>]"
    by (simp add: createDocumentChunks_def spacedDocument_def chunkSize_def)
  from long obtain cs where cs: "createDocumentChunks ?G longDocument = Inr cs" by auto
  with long longDocument_length have "sorted (map chunk_startIndex cs)"
    "\<exists>c\<in>set cs. chunk_startIndex c \<le> 1599 \<and> 1599 < chunk_endIndex c" by auto
  with cs e s longDocument_length show ?thesis by blast
qed

lemma processDocument_parts:
  assumes "processDocument ge doc = Inr pd"
  shows "doc_content pd = doc_content doc"
    "ge (doc_title doc @ [CHR 0x0A, CHR 0x0A] @ doc_content doc) = Inr (embedding pd)"
    "createDocumentChunks ge doc = Inr (chunks pd)"
  using assms
  by (auto simp: processDocument_def Let_def split: sum.splits)

lemma createDocumentChunks_contents:
  assumes cs: "createDocumentChunks ge doc = Inr cs" and c: "c \<in> set cs"
  shows "chunk_content c =
           (if length (doc_content doc) \<le> 800 then doc_content doc
            else trim (slice (doc_content doc) (chunk_startIndex c) (chunk_endIndex c)))"
proof (cases "length (doc_content doc) \<le> 800")
  case True
  with cs c show ?thesis
    by (auto simp: createDocumentChunks_def chunkSize_def split: sum.splits)
next
  case False
  then have long: "chunkSize < length (doc_content doc)" by (simp add: chunkSize_def)
  from long_chunk [OF cs long c] obtain p where
    p: "p \<in> set (chunkLoop (doc_content doc) 0 0)" "chunk_startIndex c = fst (snd p)"
       "chunk_endIndex c = fst (snd p) + length (snd (snd p))" "chunk_content c = trim (snd (snd p))"
    by blast
  from chunkLoop_slices [OF p(1)] p(2,3)
  have "snd (snd p) = slice (doc_content doc) (chunk_startIndex c) (chunk_endIndex c)" by simp
  with p(4) False show ?thesis by simp
qed

text \<open>
  C6 (as amended). \<^verbatim>\<open>processDocument\<close> does not preprocess: the processed document keeps
  the content as given, the document embedding is requested for the title, two line
  feeds and that content, and each chunk holds the content itself (at most 800
  characters) or the trimmed slice of it at the chunk's span.
\<close>

theorem processDocument_raw_content:
  assumes "processDocument ge doc = Inr pd"
  shows "doc_content pd = doc_content doc
       \<and> ge (doc_title doc @ [CHR 0x0A, CHR 0x0A] @ doc_content doc) = Inr (embedding pd)
       \<and> (\<forall>c\<in>set (chunks pd). chunk_content c =
             (if length (doc_content doc) \<le> 800 then doc_content doc
              else trim (slice (doc_content doc) (chunk_startIndex c) (chunk_endIndex c))))"
  using processDocument_parts [OF assms] createDocumentChunks_contents [of ge doc "chunks pd"]
  by blast

lemma spacedDocument_processed:
  "processDocument (\<lambda>t. Inr [1, 0]) spacedDocument =
     Inr \<lparr> doc_id = ''profile-doc'', doc_title = ''Profile Setup Guide'',
           doc_content = ''Upload   a professional photo.  '', doc_section = PROFILE,
           embedding = [1, 0],
           chunks = [\<lparr> chunk_id = ''profile-doc_chunk_0'',
                       chunk_content = ''Upload   a professional photo.  '',
                       chunk_embedding = [1, 0], chunk_documentId = ''profile-doc'',
                       chunk_startIndex = 0, chunk_endIndex = 32 \<rparr>] \<rparr>"
  by (simp add: processDocument_def createDocumentChunks_def spacedDocument_def chunkSize_def
      Let_def)

theorem processDocument_raw_content_witness:
  "map_sum id doc_content (processDocument (\<lambda>t. Inr [1, 0]) spacedDocument) =
     Inr (doc_content spacedDocument)
   \<and> map_sum id (\<lambda>pd. map chunk_content (chunks pd)) (processDocument (\<lambda>t. Inr [1, 0]) spacedDocument) =
     Inr [doc_content spacedDocument]"
  using processDocument_raw_content [OF spacedDocument_processed]
  unfolding spacedDocument_processed by (simp add: spacedDocument_def)

text \<open>
  The chunk of a document with runs of spaces keeps them; \<^verbatim>\<open>preprocessContent\<close> would
  have removed them.
\<close>

theorem processDocument_skips_preprocessing:
  "map_sum id (\<lambda>pd. map chunk_content (chunks pd)) (processDocument (\<lambda>t. Inr [1, 0]) spacedDocument) =
     Inr [''Upload   a professional photo.  '']
   \<and> preprocessContent (doc_content spacedDocument) = ''Upload a professional photo.''"
proof -
  have "preprocessContent ''Upload   a professional photo.  '' = ''Upload a professional photo.''"
    by code_simp
  then show ?thesis unfolding spacedDocument_processed by (simp add: spacedDocument_def)
qed

text \<open>The four cases of the repository's test of \<^verbatim>\<open>preprocessContent\<close>.\<close>

lemma preprocessContent_examples:
  "preprocessContent (''Line 1'' @ [CHR 0x0D, CHR 0x0A] @ ''Line 2'' @ [CHR 0x0D, CHR 0x0A] @ ''Line 3'')
     = ''Line 1'' @ [CHR 0x0A] @ ''Line 2'' @ [CHR 0x0A] @ ''Line 3''"
  "preprocessContent (''Line 1'' @ [CHR 0x0A, CHR 0x0A, CHR 0x0A, CHR 0x0A] @ ''Line 2'')
     = ''Line 1'' @ [CHR 0x0A, CHR 0x0A] @ ''Line 2''"
  "preprocessContent (''Word1    Word2'' @ [CHR 0x09, CHR 0x09] @ ''Word3'') = ''Word1 Word2 Word3''"
  "preprocessContent ''   Content with spaces   '' = ''Content with spaces''"
  by code_simp+

section \<open>One load in flight\<close>

lemma invariant_initial: "loaderInvariant initialLoader"
  by (simp add: loaderInvariant_def initialLoader_def)

lemma invariant_call:
  assumes "loaderInvariant s"
  shows "loaderInvariant (snd (loadOnboardingDocumentation s))"
proof (cases "isLoaded s \<or> (isLoading s \<and> loadingPromise s \<noteq> None)")
  case True
  with assms show ?thesis by (auto simp: loadOnboardingDocumentation_def)
next
  case False
  with assms have idle: "\<forall>p. \<not> (p < length (promises s) \<and> promises s ! p = Pending) \<and> p \<notin> awaiting s"
    unfolding loaderInvariant_def by (metis option.distinct(1))
  with False show ?thesis
    by (auto simp: loadOnboardingDocumentation_def loaderInvariant_def Let_def nth_append)
qed

lemma invariant_resolves:
  assumes "loaderInvariant s" "performLoad_resolves p s = Some s'"
  shows "loaderInvariant s'"
proof -
  from assms(2) have p: "p < length (promises s)" "promises s ! p = Pending"
    and s': "s' = s\<lparr> isLoaded := True, promises := (promises s)[p := Fulfilled] \<rparr>"
    by (auto simp: performLoad_resolves_def split: if_splits)
  from assms(1) p have lp: "loadingPromise s = Some p" by (auto simp: loaderInvariant_def)
  have "promises s' ! q \<noteq> Pending" if "q < length (promises s')" for q
  proof (cases "q = p")
    case True
    with p show ?thesis by (simp add: s')
  next
    case False
    with assms(1) that lp show ?thesis by (auto simp: s' loaderInvariant_def)
  qed
  moreover have "isLoading s' \<and> loadingPromise s' = Some q" if "q \<in> awaiting s'" for q
    using assms(1) that by (auto simp: s' loaderInvariant_def)
  ultimately show ?thesis by (auto simp: loaderInvariant_def)
qed

lemma invariant_rejects:
  assumes "loaderInvariant s" "performLoad_rejects p s = Some s'"
  shows "loaderInvariant s'"
proof -
  from assms(2) have p: "p < length (promises s)" "promises s ! p = Pending"
    and s': "s' = s\<lparr> isLoaded := False, promises := (promises s)[p := Rejected] \<rparr>"
    by (auto simp: performLoad_rejects_def split: if_splits)
  have "isLoading s \<and> loadingPromise s = Some q"
    if "(q < length (promises s') \<and> promises s' ! q = Pending) \<or> q \<in> awaiting s'" for q
  proof (cases "q = p")
    case True
    with assms(1) p show ?thesis by (auto simp: loaderInvariant_def)
  next
    case False
    with assms(1) that show ?thesis by (auto simp: s' loaderInvariant_def)
  qed
  then show ?thesis by (auto simp: loaderInvariant_def s')
qed

lemma invariant_finally:
  assumes "loaderInvariant s" "finallyBlock p s = Some s'"
  shows "loaderInvariant s'"
proof -
  from assms(2) have p: "p \<in> awaiting s" "p < length (promises s)" "promises s ! p \<noteq> Pending"
    and s': "s' = s\<lparr> isLoading := False, loadingPromise := None, awaiting := awaiting s - {p} \<rparr>"
    by (auto simp: finallyBlock_def split: if_splits)
  from assms(1) p(1) have lp: "loadingPromise s = Some p" by (auto simp: loaderInvariant_def)
  have only: "q = p" if "(q < length (promises s) \<and> promises s ! q = Pending) \<or> q \<in> awaiting s" for q
    using assms(1) that lp by (auto simp: loaderInvariant_def)
  have "\<not> ((q < length (promises s') \<and> promises s' ! q = Pending) \<or> q \<in> awaiting s')" for q
    using only [of q] p by (auto simp: s')
  moreover from assms(1) have "isLoaded s' \<longrightarrow> (\<forall>q < length (promises s'). promises s' ! q \<noteq> Pending)"
    by (simp add: s' loaderInvariant_def)
  ultimately show ?thesis unfolding loaderInvariant_def by blast
qed

lemma reachable_invariant: "reachable s \<Longrightarrow> loaderInvariant s"
proof (induction rule: reachable.induct)
  case start
  show ?case by (rule invariant_initial)
next
  case (step s e s')
  then show ?case
    by (cases e) (auto intro: invariant_call invariant_resolves invariant_rejects invariant_finally)
qed

lemma inFlight_at_most_one:
  assumes "loaderInvariant s"
  shows "length (inFlight s) \<le> 1"
proof -
  have d: "distinct (inFlight s)" by (simp add: inFlight_def)
  have "set (inFlight s) \<subseteq> {q. loadingPromise s = Some q}"
    using assms by (auto simp: inFlight_def loaderInvariant_def)
  also have "\<dots> \<subseteq> (case loadingPromise s of None \<Rightarrow> {} | Some q \<Rightarrow> {q})"
    by (auto split: option.splits)
  finally have "card (set (inFlight s)) \<le> card (case loadingPromise s of None \<Rightarrow> {} | Some q \<Rightarrow> {q})"
    by (intro card_mono) (auto split: option.splits)
  also have "\<dots> \<le> 1" by (simp split: option.splits)
  finally show ?thesis using d by (simp add: distinct_card)
qed

lemma call_in_flight:
  assumes "loaderInvariant s" "p \<in> set (inFlight s)"
  shows "loadOnboardingDocumentation s = (AwaitsShared p, s)"
proof -
  from assms(2) have p: "p < length (promises s)" "promises s ! p = Pending"
    by (auto simp: inFlight_def)
  with assms(1) have "isLoading s" "loadingPromise s = Some p" "\<not> isLoaded s"
    by (auto simp: loaderInvariant_def)
  then show ?thesis by (simp add: loadOnboardingDocumentation_def)
qed

lemma callN_in_flight:
  assumes "loaderInvariant s" "p \<in> set (inFlight s)"
  shows "callN n s = (replicate n (AwaitsShared p), s)"
  by (induction n) (simp_all add: call_in_flight [OF assms])

lemma callN_loaded: "isLoaded s \<Longrightarrow> callN n s = (replicate n ReturnsAtOnce, s)"
  by (induction n) (simp_all add: loadOnboardingDocumentation_def)

lemma loaded_stable:
  assumes "loaderInvariant s" "isLoaded s" "applyEvent e s = Some s'"
  shows "isLoaded s'"
proof (cases e)
  case Call
  with assms show ?thesis by (auto simp: loadOnboardingDocumentation_def)
next
  case (Resolves p)
  with assms show ?thesis by (auto simp: performLoad_resolves_def split: if_splits)
next
  case (Rejects p)
  with assms show ?thesis by (auto simp: performLoad_rejects_def loaderInvariant_def split: if_splits)
next
  case (Finally p)
  with assms show ?thesis by (auto simp: finallyBlock_def split: if_splits)
qed

lemma call_initial: "loadOnboardingDocumentation initialLoader = (StartsLoad 0, loadingLoader)"
  by (simp add: loadOnboardingDocumentation_def initialLoader_def loadingLoader_def)

lemma inFlight_loading: "inFlight loadingLoader = [0]"
  by (simp add: inFlight_def loadingLoader_def)

lemma resolves_loading: "performLoad_resolves 0 loadingLoader = Some loadedLoader"
  by (simp add: performLoad_resolves_def loadingLoader_def loadedLoader_def)

lemma reachable_loading: "reachable loadingLoader"
proof -
  have "applyEvent Call initialLoader = Some loadingLoader" by (simp add: call_initial)
  with reachable.start show ?thesis by (rule reachable.step)
qed

lemma reachable_loaded: "reachable loadedLoader"
proof -
  have "applyEvent (Resolves 0) loadingLoader = Some loadedLoader" by (simp add: resolves_loading)
  with reachable_loading show ?thesis by (rule reachable.step)
qed

lemma callN_initial:
  "callN (Suc n) initialLoader = (StartsLoad 0 # replicate n (AwaitsShared 0), loadingLoader)"
proof -
  have "loaderInvariant loadingLoader" using reachable_loading by (rule reachable_invariant)
  then have "callN n loadingLoader = (replicate n (AwaitsShared 0), loadingLoader)"
    by (rule callN_in_flight) (simp add: inFlight_loading)
  then show ?thesis by (simp add: call_initial)
qed

text \<open>
  C9. In every state reachable by calls of \<^verbatim>\<open>loadOnboardingDocumentation\<close> and their
  continuations, at most one load is in flight; while a load is in flight every call, and
  any number of calls in a row, returns the shared promise of that load and changes
  nothing; once \<^verbatim>\<open>isLoaded\<close> is true no load is in flight, every call returns at once and
  \<^verbatim>\<open>isLoaded\<close> stays true. From the initial state, \<open>n + 1\<close> calls in a row start exactly
  one load, all later callers await its promise, and when it succeeds \<^verbatim>\<open>isLoaded\<close> is true.
\<close>

theorem single_shared_load:
  assumes "reachable s"
  shows "length (inFlight s) \<le> 1
       \<and> (\<forall>p\<in>set (inFlight s). callN n s = (replicate n (AwaitsShared p), s))
       \<and> (isLoaded s \<longrightarrow> inFlight s = [] \<and> callN n s = (replicate n ReturnsAtOnce, s)
             \<and> (\<forall>e s'. applyEvent e s = Some s' \<longrightarrow> isLoaded s'))
       \<and> callN (Suc n) initialLoader = (StartsLoad 0 # replicate n (AwaitsShared 0), loadingLoader)
       \<and> inFlight loadingLoader = [0]
       \<and> performLoad_resolves 0 loadingLoader = Some loadedLoader
       \<and> isLoaded loadedLoader"
proof -
  from assms have inv: "loaderInvariant s" by (rule reachable_invariant)
  have a: "length (inFlight s) \<le> 1" using inv by (rule inFlight_at_most_one)
  have b: "\<forall>p\<in>set (inFlight s). callN n s = (replicate n (AwaitsShared p), s)"
    using callN_in_flight [OF inv] by blast
  have c: "inFlight s = []" if "isLoaded s"
    using inv that by (auto simp: inFlight_def loaderInvariant_def filter_empty_conv)
  have d: "\<forall>e s'. applyEvent e s = Some s' \<longrightarrow> isLoaded s'" if "isLoaded s"
    using loaded_stable [OF inv that] by blast
  have e: "isLoaded loadedLoader" by (simp add: loadedLoader_def)
  from a b c d e callN_loaded [of s n] callN_initial [of n] inFlight_loading resolves_loading
  show ?thesis by simp
qed

theorem single_shared_load_witness:
  "callN 3 initialLoader = ([StartsLoad 0, AwaitsShared 0, AwaitsShared 0], loadingLoader)
   \<and> inFlight loadingLoader = [0]
   \<and> callN 3 loadingLoader = ([AwaitsShared 0, AwaitsShared 0, AwaitsShared 0], loadingLoader)
   \<and> performLoad_resolves 0 loadingLoader = Some loadedLoader
   \<and> isLoaded loadedLoader
   \<and> callN 3 loadedLoader = ([ReturnsAtOnce, ReturnsAtOnce, ReturnsAtOnce], loadedLoader)"
proof -
  have r2: "replicate 2 x = [x, x]" and r3: "replicate 3 x = [x, x, x]" for x :: call_outcome
    by (simp_all add: numeral_2_eq_2 numeral_3_eq_3)
  have three: "(3::nat) = Suc 2" by simp
  note loading = single_shared_load [OF reachable_loading, of 3]
  note loaded = single_shared_load [OF reachable_loaded, of 3]
  from single_shared_load [OF reachable_loading, of 2]
  have 1: "callN 3 initialLoader = ([StartsLoad 0, AwaitsShared 0, AwaitsShared 0], loadingLoader)"
    unfolding three r2 by blast
  from loading have 2: "inFlight loadingLoader = [0]"
    and 4: "performLoad_resolves 0 loadingLoader = Some loadedLoader"
    and 5: "isLoaded loadedLoader" by blast+
  from loading 2 have 3: "callN 3 loadingLoader = ([AwaitsShared 0, AwaitsShared 0, AwaitsShared 0], loadingLoader)"
    unfolding r3 by simp
  from loaded 5 have 6: "callN 3 loadedLoader = ([ReturnsAtOnce, ReturnsAtOnce, ReturnsAtOnce], loadedLoader)"
    unfolding r3 by blast
  from 1 2 3 4 5 6 show ?thesis by blast
qed

end
